theory Spec2Isabelle
  imports Main
begin

section \<open>JavaScript values used by \<open>src/src/App.tsx\<close>\<close>

text \<open>
  A JavaScript string is a sequence of 16-bit code units; \<open>length\<close> and \<open>slice\<close>
  count code units. The model uses \<^typ>\<open>string\<close>: one \<^typ>\<open>char\<close> stands for one
  code unit, and the code units it can hold are those below 256. A JavaScript number that
  holds an offset or a length is an \<^typ>\<open>int\<close>. \<open>string | null\<close> is
  \<^typ>\<open>string option\<close>.
\<close>

definition ESC :: char where
  "ESC = CHR 0x1B"

definition NL :: char where
  "NL = CHR 0x0A"

text \<open>Truthiness of a \<open>string | null\<close>: \<open>null\<close> and the empty string are falsy.\<close>

definition truthy :: "string option \<Rightarrow> bool" where
  "truthy v = (case v of None \<Rightarrow> False | Some s \<Rightarrow> s \<noteq> [])"

text \<open>\<open>a || b\<close> on \<open>string | null | undefined\<close>.\<close>

definition js_or :: "string option \<Rightarrow> string option \<Rightarrow> string option" where
  "js_or a b = (if truthy a then a else b)"

text \<open>
  \<open>String.prototype.slice(start, end)\<close>: a negative index counts from the end, both
  indices are clamped to the string, and an empty range gives the empty string.
\<close>

definition js_slice :: "string \<Rightarrow> int \<Rightarrow> int \<Rightarrow> string" where
  "js_slice str start end =
     (let len = int (length str);
          from = (if start < 0 then max (len + start) 0 else min start len);
          to = (if end < 0 then max (len + end) 0 else min end len)
      in take (nat (to - from)) (drop (nat from) str))"

text \<open>\<open>slice(start)\<close>: the end defaults to the length of the string.\<close>

definition js_slice_from :: "string \<Rightarrow> int \<Rightarrow> string" where
  "js_slice_from str start = js_slice str start (int (length str))"

text \<open>
  \<open>String.prototype.trim()\<close> removes white space and line terminators from both ends.
  Of the code points ECMAScript lists, those that fit a \<^typ>\<open>char\<close> are TAB, LF, VT,
  FF, CR, SPACE and NBSP.
\<close>

definition is_whitespace :: "char \<Rightarrow> bool" where
  "is_whitespace c = (c \<in> {CHR 0x09, CHR 0x0A, CHR 0x0B, CHR 0x0C, CHR 0x0D, CHR 0x20, CHR 0xA0})"

definition trim :: "string \<Rightarrow> string" where
  "trim s = rev (dropWhile is_whitespace (rev (dropWhile is_whitespace s)))"

text \<open>\<open>Array.prototype.join(sep)\<close> on an array of strings.\<close>

fun js_join :: "string \<Rightarrow> string list \<Rightarrow> string" where
  "js_join sep [] = []"
| "js_join sep [x] = x"
| "js_join sep (x # y # ys) = x @ sep @ js_join sep (y # ys)"

section \<open>Data model\<close>

datatype ColorType = ForegroundType | BackgroundType

record ColorOption =
  name :: string
  code :: string
  preview :: string
  type :: ColorType

text \<open>
  \<open>StyleOption\<close> has the fields \<open>name\<close> and \<open>code\<close> in the source; they are prefixed
  here because a record field name is global.
\<close>

record StyleOption =
  style_name :: string
  style_code :: string

record TextSegment =
  "text" :: string
  foreground :: "string option"
  background :: "string option"
  styles :: "string list"

definition foregroundColors :: "ColorOption list" where
  "foregroundColors =
    [\<lparr>name = ''Dark Gray'', code = ''30'', preview = ''#4f545c'', type = ForegroundType\<rparr>,
     \<lparr>name = ''Red'', code = ''31'', preview = ''#dc322f'', type = ForegroundType\<rparr>,
     \<lparr>name = ''Yellowish Green'', code = ''32'', preview = ''#859900'', type = ForegroundType\<rparr>,
     \<lparr>name = ''Gold'', code = ''33'', preview = ''#b58900'', type = ForegroundType\<rparr>,
     \<lparr>name = ''Light Blue'', code = ''34'', preview = ''#268bd2'', type = ForegroundType\<rparr>,
     \<lparr>name = ''Pink'', code = ''35'', preview = ''#d33682'', type = ForegroundType\<rparr>,
     \<lparr>name = ''Teal'', code = ''36'', preview = ''#2aa198'', type = ForegroundType\<rparr>,
     \<lparr>name = ''White'', code = ''37'', preview = ''#ffffff'', type = ForegroundType\<rparr>]"

definition backgroundColors :: "ColorOption list" where
  "backgroundColors =
    [\<lparr>name = ''Blueish Black'', code = ''40'', preview = ''#002b36'', type = BackgroundType\<rparr>,
     \<lparr>name = ''Rust Brown'', code = ''41'', preview = ''#cb4b16'', type = BackgroundType\<rparr>,
     \<lparr>name = ''Gray 40%'', code = ''42'', preview = ''#586e75'', type = BackgroundType\<rparr>,
     \<lparr>name = ''Gray 45%'', code = ''43'', preview = ''#657b83'', type = BackgroundType\<rparr>,
     \<lparr>name = ''Light Gray 55%'', code = ''44'', preview = ''#839496'', type = BackgroundType\<rparr>,
     \<lparr>name = ''Blurple'', code = ''45'', preview = ''#6c71c4'', type = BackgroundType\<rparr>,
     \<lparr>name = ''Light Gray 60%'', code = ''46'', preview = ''#93a1a1'', type = BackgroundType\<rparr>,
     \<lparr>name = ''Cream White'', code = ''47'', preview = ''#fdf6e3'', type = BackgroundType\<rparr>]"

definition textStyles :: "StyleOption list" where
  "textStyles =
    [\<lparr>style_name = ''Bold'', style_code = ''1''\<rparr>,
     \<lparr>style_name = ''Underline'', style_code = ''4''\<rparr>]"

text \<open>
  The state of the first \<open>App\<close> component (the \<open>useState\<close> cells the segment model and
  the encoder read or write; \<open>copied\<close> and the textarea reference are presentation).
\<close>

record AppState =
  inputText :: string
  segments :: "TextSegment list"
  selectedForeground :: "ColorOption option"
  selectedBackground :: "ColorOption option"
  selectedStyles :: "string list"
  selectionStart :: "int option"
  selectionEnd :: "int option"

definition initialState :: AppState where
  "initialState =
     \<lparr>inputText = [], segments = [], selectedForeground = None, selectedBackground = None,
      selectedStyles = [], selectionStart = None, selectionEnd = None\<rparr>"

text \<open>The object literal \<open>{text: t, foreground: null, background: null, styles: []}\<close>.\<close>

definition unstyledSegment :: "string \<Rightarrow> TextSegment" where
  "unstyledSegment t = \<lparr>text = t, foreground = None, background = None, styles = []\<rparr>"

section \<open>Text-change reconciliation (\<open>handleTextChange\<close>)\<close>

text \<open>\<open>segments.reduce((sum, seg) => sum + seg.text.length, 0)\<close>\<close>

definition totalCurrentLength :: "TextSegment list \<Rightarrow> int" where
  "totalCurrentLength segs = foldl (\<lambda>sum seg. sum + int (length (text seg))) 0 segs"

text \<open>
  The \<open>for\<close> loop of the shrinking branch; the result is \<open>updatedSegments\<close>. After a
  truncated segment is pushed, \<open>remaining\<close> is 0 and the next iteration breaks.
\<close>

fun shrinkLoop :: "int \<Rightarrow> TextSegment list \<Rightarrow> TextSegment list" where
  "shrinkLoop remaining [] = []"
| "shrinkLoop remaining (seg # rest) =
     (if remaining \<le> 0 then []
      else if remaining \<ge> int (length (text seg))
        then seg # shrinkLoop (remaining - int (length (text seg))) rest
        else seg\<lparr>text := js_slice (text seg) 0 remaining\<rparr> # shrinkLoop 0 rest)"

text \<open>The condition of the first branch of \<open>handleTextChange\<close>.\<close>

definition freshDocument :: "TextSegment list \<Rightarrow> bool" where
  "freshDocument segs =
     (length segs = 0 \<or>
      (length segs = 1 \<and> \<not> truthy (foreground (segs ! 0)) \<and> \<not> truthy (background (segs ! 0))
        \<and> length (styles (segs ! 0)) = 0))"

text \<open>The value \<open>handleTextChange\<close> passes to \<open>setSegments\<close> (the old list when it passes none).\<close>

definition reconcileSegments :: "TextSegment list \<Rightarrow> string \<Rightarrow> TextSegment list" where
  "reconcileSegments segs newText =
     (if freshDocument segs then [unstyledSegment newText]
      else
        (let total = totalCurrentLength segs;
             diff = int (length newText) - total
         in if diff > 0 then
              (let lastSegment = segs ! (length segs - 1)
               in segs[length segs - 1 :=
                    lastSegment\<lparr>text := text lastSegment @ js_slice_from newText total\<rparr>])
            else if diff < 0 then shrinkLoop (int (length newText)) segs
            else segs))"

definition handleTextChange :: "string \<Rightarrow> AppState \<Rightarrow> AppState" where
  "handleTextChange newText st =
     st\<lparr>inputText := newText, segments := reconcileSegments (segments st) newText\<rparr>"

section \<open>Selection and style application\<close>

text \<open>
  \<open>handleTextSelect\<close> reads \<open>selectionStart\<close> and \<open>selectionEnd\<close> of the textarea; they
  are the arguments \<open>start\<close> and \<open>end\<close> here.
\<close>

definition handleTextSelect :: "int \<Rightarrow> int \<Rightarrow> AppState \<Rightarrow> AppState" where
  "handleTextSelect start end st =
     (if start \<noteq> end then st\<lparr>selectionStart := Some start, selectionEnd := Some end\<rparr>
      else st\<lparr>selectionStart := None, selectionEnd := None\<rparr>)"

text \<open>
  The object the loop of \<open>applyFormattingToSelection\<close> pushes for the part of
  \<open>segment\<close> inside the selection. The arguments \<open>selFg\<close>, \<open>selBg\<close> and \<open>selStyles\<close>
  are the state cells \<open>selectedForeground\<close>, \<open>selectedBackground\<close> and \<open>selectedStyles\<close>;
  \<open>selectedForeground?.code\<close> is \<open>map_option code selFg\<close>.
\<close>

definition overlapSegment ::
  "ColorOption option \<Rightarrow> ColorOption option \<Rightarrow> string list \<Rightarrow> TextSegment \<Rightarrow> string
   \<Rightarrow> TextSegment" where
  "overlapSegment selFg selBg selStyles segment overlapText =
     \<lparr>text = overlapText,
      foreground = js_or (map_option code selFg) (foreground segment),
      background = js_or (map_option code selBg) (background segment),
      styles = (if length selStyles > 0 then selStyles else styles segment)\<rparr>"

text \<open>
  One iteration of that loop: what it pushes to \<open>newSegments\<close> for \<open>segment\<close>, which
  starts at offset \<open>currentPos\<close>.
\<close>

definition formatSegment ::
  "int \<Rightarrow> int \<Rightarrow> ColorOption option \<Rightarrow> ColorOption option \<Rightarrow> string list \<Rightarrow> int \<Rightarrow> TextSegment
   \<Rightarrow> TextSegment list" where
  "formatSegment selStart selEnd selFg selBg selStyles currentPos segment =
     (let segmentEnd = currentPos + int (length (text segment))
      in if segmentEnd \<le> selStart \<or> currentPos \<ge> selEnd then [segment]
         else
           (let overlapStart = max 0 (selStart - currentPos);
                overlapEnd = min (int (length (text segment))) (selEnd - currentPos);
                overlapText = js_slice (text segment) overlapStart overlapEnd
            in (if currentPos < selStart
                then [segment\<lparr>text := js_slice (text segment) 0 (selStart - currentPos)\<rparr>]
                else [])
               @ (if overlapText \<noteq> []
                  then [overlapSegment selFg selBg selStyles segment overlapText]
                  else [])
               @ (if segmentEnd > selEnd
                  then [segment\<lparr>text := js_slice_from (text segment) (selEnd - currentPos)\<rparr>]
                  else [])))"

fun formatLoop ::
  "int \<Rightarrow> int \<Rightarrow> ColorOption option \<Rightarrow> ColorOption option \<Rightarrow> string list \<Rightarrow> int
   \<Rightarrow> TextSegment list \<Rightarrow> TextSegment list" where
  "formatLoop selStart selEnd selFg selBg selStyles currentPos [] = []"
| "formatLoop selStart selEnd selFg selBg selStyles currentPos (segment # rest) =
     formatSegment selStart selEnd selFg selBg selStyles currentPos segment
     @ formatLoop selStart selEnd selFg selBg selStyles
         (currentPos + int (length (text segment))) rest"

definition applyFormattingToSelection :: "AppState \<Rightarrow> AppState" where
  "applyFormattingToSelection st =
     (case (selectionStart st, selectionEnd st) of
        (Some selStart, Some selEnd) \<Rightarrow>
          if selStart = selEnd then st
          else st\<lparr>segments :=
                    formatLoop selStart selEnd (selectedForeground st) (selectedBackground st)
                      (selectedStyles st) 0 (segments st),
                  selectionStart := None, selectionEnd := None\<rparr>
      | _ \<Rightarrow> st)"

section \<open>Style choices and clear-all\<close>

definition toggleStyle :: "string \<Rightarrow> string list \<Rightarrow> string list" where
  "toggleStyle c prev = (if c \<in> set prev then filter (\<lambda>s. s \<noteq> c) prev else prev @ [c])"

text \<open>The click handlers of the two palettes.\<close>

definition pickColor :: "ColorOption \<Rightarrow> ColorOption option \<Rightarrow> ColorOption option" where
  "pickColor color selected =
     (if map_option code selected = Some (code color) then None else Some color)"

definition clearAll :: "AppState \<Rightarrow> AppState" where
  "clearAll st =
     st\<lparr>segments := [unstyledSegment (inputText st)],
        selectedForeground := None, selectedBackground := None, selectedStyles := []\<rparr>"

section \<open>Escape encoder (\<open>generateColoredText\<close>)\<close>

text \<open>The array \<open>codes\<close> the loop body builds for a segment.\<close>

definition segmentCodes :: "TextSegment \<Rightarrow> string list" where
  "segmentCodes segment =
     (if length (styles segment) > 0 then styles segment else [])
     @ (case foreground segment of Some c \<Rightarrow> if c \<noteq> [] then [c] else [] | None \<Rightarrow> [])
     @ (case background segment of Some c \<Rightarrow> if c \<noteq> [] then [c] else [] | None \<Rightarrow> [])"

text \<open>What one iteration appends to \<open>result\<close>.\<close>

definition encodeSegment :: "TextSegment \<Rightarrow> string" where
  "encodeSegment segment =
     (if text segment = [] then []
      else
        (let codes = segmentCodes segment
         in if length codes > 0
            then [ESC] @ ''['' @ js_join '';'' codes @ ''m'' @ text segment @ [ESC] @ ''[0m''
            else text segment))"

definition generateColoredText :: "AppState \<Rightarrow> string" where
  "generateColoredText st =
     (if trim (inputText st) = [] \<or> length (segments st) = 0 then []
      else foldl (\<lambda>result segment. result @ encodeSegment segment)
             (''```ansi'' @ [NL]) (segments st)
           @ [NL] @ ''```'')"

section \<open>The component as a transition system\<close>

text \<open>
  The effect registered with \<open>useEffect\<close>: after a render in which \<open>segments\<close> is empty
  and \<open>inputText\<close> is not, it installs one unstyled segment.
\<close>

definition segmentsEffect :: "AppState \<Rightarrow> AppState" where
  "segmentsEffect st =
     (if length (segments st) = 0 \<and> inputText st \<noteq> []
      then st\<lparr>segments := [unstyledSegment (inputText st)]\<rparr> else st)"

datatype Event =
    TextChange string
  | TextSelect int int
  | ApplyFormatting
  | ToggleStyle string
  | PickForeground ColorOption
  | PickBackground ColorOption
  | ClearAll

fun handleEvent :: "Event \<Rightarrow> AppState \<Rightarrow> AppState" where
  "handleEvent (TextChange newText) st = handleTextChange newText st"
| "handleEvent (TextSelect start end) st = handleTextSelect start end st"
| "handleEvent ApplyFormatting st = applyFormattingToSelection st"
| "handleEvent (ToggleStyle c) st = st\<lparr>selectedStyles := toggleStyle c (selectedStyles st)\<rparr>"
| "handleEvent (PickForeground color) st =
     st\<lparr>selectedForeground := pickColor color (selectedForeground st)\<rparr>"
| "handleEvent (PickBackground color) st =
     st\<lparr>selectedBackground := pickColor color (selectedBackground st)\<rparr>"
| "handleEvent ClearAll st = clearAll st"

definition step :: "AppState \<Rightarrow> Event \<Rightarrow> AppState" where
  "step st ev = segmentsEffect (handleEvent ev st)"

definition run :: "Event list \<Rightarrow> AppState" where
  "run evs = foldl step initialState evs"

text \<open>
  What the browser guarantees of an event: the textarea reports a selection with
  \<open>0 \<le> selectionStart \<le> selectionEnd\<close>.
\<close>

fun browserEvent :: "Event \<Rightarrow> bool" where
  "browserEvent (TextSelect start end) = (0 \<le> start \<and> start \<le> end)"
| "browserEvent _ = True"

section \<open>The second \<open>App\<close> component (whole-text encoder)\<close>

record AppState2 =
  inputText2 :: string
  selectedForeground2 :: "ColorOption option"
  selectedBackground2 :: "ColorOption option"
  selectedStyles2 :: "string list"

definition generateColoredText2 :: "AppState2 \<Rightarrow> string" where
  "generateColoredText2 st =
     (if trim (inputText2 st) = [] then []
      else
        (let codes =
               (if length (selectedStyles2 st) > 0 then selectedStyles2 st else [])
               @ (case selectedForeground2 st of Some c \<Rightarrow> [code c] | None \<Rightarrow> [])
               @ (case selectedBackground2 st of Some c \<Rightarrow> [code c] | None \<Rightarrow> [])
         in if length codes = 0 then ''```ansi'' @ [NL] @ inputText2 st @ [NL] @ ''```''
            else
              (let ansiCode = [ESC] @ ''['' @ js_join '';'' codes @ ''m'';
                   resetCode = [ESC] @ ''[0m''
               in ''```ansi'' @ [NL] @ ansiCode @ inputText2 st @ resetCode @ [NL] @ ''```'')))"

section \<open>Observations used to state the properties\<close>

text \<open>The sum of the lengths of the segment texts.\<close>

definition textLength :: "TextSegment list \<Rightarrow> nat" where
  "textLength segs = sum_list (map (\<lambda>seg. length (text seg)) segs)"

text \<open>Invariant I1 of a state.\<close>

definition lengthInvariant :: "AppState \<Rightarrow> bool" where
  "lengthInvariant st = (textLength (segments st) = length (inputText st))"

text \<open>
  The characters of a Document in order, each with the foreground, background and style
  flags of the segment that holds it.
\<close>

definition styledChars ::
  "TextSegment list \<Rightarrow> (char \<times> string option \<times> string option \<times> string list) list" where
  "styledChars segs =
     concat (map (\<lambda>seg. map (\<lambda>c. (c, foreground seg, background seg, styles seg)) (text seg)) segs)"

text \<open>The stored selection, when there is one, is as the browser reports it.\<close>

definition selectionOrdered :: "AppState \<Rightarrow> bool" where
  "selectionOrdered st =
     (case (selectionStart st, selectionEnd st) of
        (Some selStart, Some selEnd) \<Rightarrow> 0 \<le> selStart \<and> selStart \<le> selEnd
      | _ \<Rightarrow> True)"

text \<open>
  Every segment has a non-empty text, or the input text is empty and the Document is the
  one unstyled segment with the empty text.
\<close>

definition segmentsTidy :: "AppState \<Rightarrow> bool" where
  "segmentsTidy st =
     (list_all (\<lambda>seg. text seg \<noteq> []) (segments st)
      \<or> (inputText st = [] \<and> segments st = [unstyledSegment []]))"

section \<open>Facts about the JavaScript helpers\<close>

lemma foldl_length_sum:
  "foldl (\<lambda>sum seg. sum + int (length (text seg))) a segs = a + int (textLength segs)"
  by (induction segs arbitrary: a) (simp_all add: textLength_def)

lemma totalCurrentLength_textLength: "totalCurrentLength segs = int (textLength segs)"
  by (simp add: totalCurrentLength_def foldl_length_sum)

lemma js_slice_nonneg:
  "0 \<le> a \<Longrightarrow> 0 \<le> b \<Longrightarrow> js_slice str a b = take (nat b - nat a) (drop (nat a) str)"
  by (auto simp: js_slice_def Let_def min_def nat_diff_distrib')

lemma js_slice_from_nonneg: "0 \<le> a \<Longrightarrow> js_slice_from str a = drop (nat a) str"
  by (simp add: js_slice_from_def js_slice_nonneg)

lemma js_slice_prefix: "0 \<le> b \<Longrightarrow> js_slice str 0 b = take (nat b) str"
  by (simp add: js_slice_nonneg)

lemma textLength_Nil [simp]: "textLength [] = 0"
  by (simp add: textLength_def)

lemma textLength_Cons [simp]: "textLength (seg # segs) = length (text seg) + textLength segs"
  by (simp add: textLength_def)

lemma textLength_append [simp]: "textLength (xs @ ys) = textLength xs + textLength ys"
  by (simp add: textLength_def)

lemma shrinkLoop_nonpos: "r \<le> 0 \<Longrightarrow> shrinkLoop r segs = []"
  by (cases segs) simp_all

lemma textLength_shrinkLoop:
  "0 \<le> r \<Longrightarrow> r \<le> int (textLength segs) \<Longrightarrow> textLength (shrinkLoop r segs) = nat r"
proof (induction segs arbitrary: r)
  case Nil
  then show ?case by simp
next
  case (Cons seg rest)
  show ?case
  proof (cases "r \<le> 0")
    case True
    with Cons.prems show ?thesis by simp
  next
    case pos: False
    show ?thesis
    proof (cases "r \<ge> int (length (text seg))")
      case True
      with pos Cons.prems Cons.IH [of "r - int (length (text seg))"] show ?thesis
        by (simp add: nat_diff_distrib)
    next
      case False
      with pos show ?thesis
        by (simp add: js_slice_prefix shrinkLoop_nonpos)
    qed
  qed
qed

lemma list_update_last: "segs \<noteq> [] \<Longrightarrow> segs[length segs - 1 := x] = butlast segs @ [x]"
  by (induction segs rule: rev_induct) simp_all

lemma nth_length_minus_1: "segs \<noteq> [] \<Longrightarrow> segs ! (length segs - 1) = last segs"
  by (simp add: last_conv_nth)

lemma textLength_butlast:
  "segs \<noteq> [] \<Longrightarrow> textLength (butlast segs) + length (text (last segs)) = textLength segs"
  by (induction segs rule: rev_induct) simp_all

lemma freshDocument_Nil [simp]: "freshDocument []"
  by (simp add: freshDocument_def)

lemma reconcileSegments_fresh:
  "freshDocument segs \<Longrightarrow> reconcileSegments segs newText = [unstyledSegment newText]"
  by (simp add: reconcileSegments_def)

lemma reconcileSegments_grow:
  assumes "\<not> freshDocument segs" and "textLength segs < length newText"
  shows "reconcileSegments segs newText =
           butlast segs @ [(last segs)\<lparr>text := text (last segs) @ drop (textLength segs) newText\<rparr>]"
proof -
  from assms(1) have ne: "segs \<noteq> []" by auto
  have "reconcileSegments segs newText =
          segs[length segs - 1 := (segs ! (length segs - 1))
            \<lparr>text := text (segs ! (length segs - 1)) @ js_slice_from newText (int (textLength segs))\<rparr>]"
    using assms by (simp add: reconcileSegments_def Let_def totalCurrentLength_textLength del: One_nat_def)
  then show ?thesis
    by (simp only: list_update_last [OF ne] nth_length_minus_1 [OF ne]) (simp add: js_slice_from_nonneg)
qed

lemma reconcileSegments_shrink:
  "\<not> freshDocument segs \<Longrightarrow> length newText < textLength segs \<Longrightarrow>
   reconcileSegments segs newText = shrinkLoop (int (length newText)) segs"
  by (simp add: reconcileSegments_def Let_def totalCurrentLength_textLength)

lemma reconcileSegments_same:
  "\<not> freshDocument segs \<Longrightarrow> length newText = textLength segs \<Longrightarrow>
   reconcileSegments segs newText = segs"
  by (simp add: reconcileSegments_def Let_def totalCurrentLength_textLength)

lemma textLength_reconcileSegments:
  "textLength (reconcileSegments segs newText) = length newText"
proof (cases "freshDocument segs")
  case True
  then show ?thesis by (simp add: reconcileSegments_fresh unstyledSegment_def)
next
  case False
  then have ne: "segs \<noteq> []" by auto
  consider "length newText > textLength segs" | "length newText < textLength segs"
    | "length newText = textLength segs"
    by linarith
  then show ?thesis
  proof cases
    case 1
    with False textLength_butlast [OF ne] show ?thesis
      by (simp add: reconcileSegments_grow)
  next
    case 2
    with False show ?thesis
      by (simp add: reconcileSegments_shrink textLength_shrinkLoop)
  next
    case 3
    with False show ?thesis
      by (simp add: reconcileSegments_same)
  qed
qed

lemma formatSegment_outside:
  "currentPos + int (length (text segment)) \<le> selStart \<or> currentPos \<ge> selEnd \<Longrightarrow>
   formatSegment selStart selEnd selFg selBg selStyles currentPos segment = [segment]"
  by (simp add: formatSegment_def)

lemma overlapText_eq:
  assumes "currentPos < selEnd"
  shows "js_slice t (max 0 (selStart - currentPos)) (min (int (length t)) (selEnd - currentPos))
         = take (min (length t) (nat (selEnd - currentPos)) - nat (selStart - currentPos))
             (drop (nat (selStart - currentPos)) t)"
proof -
  have "nat (max 0 (selStart - currentPos)) = nat (selStart - currentPos)"
    by (simp add: max_def)
  moreover have "nat (min (int (length t)) (selEnd - currentPos))
                   = min (length t) (nat (selEnd - currentPos))"
    using assms by (simp add: min_def; linarith)
  moreover have "0 \<le> max 0 (selStart - currentPos)"
    and "0 \<le> min (int (length t)) (selEnd - currentPos)"
    using assms by simp_all
  ultimately show ?thesis
    using js_slice_nonneg [of "max 0 (selStart - currentPos)"
        "min (int (length t)) (selEnd - currentPos)" t]
    by simp
qed

lemma formatSegment_overlap:
  assumes in1: "selStart < currentPos + int (length (text segment))" and in2: "currentPos < selEnd"
  defines "a \<equiv> nat (selStart - currentPos)"
    and "b \<equiv> min (length (text segment)) (nat (selEnd - currentPos))"
  shows "formatSegment selStart selEnd selFg selBg selStyles currentPos segment =
           (if currentPos < selStart then [segment\<lparr>text := take a (text segment)\<rparr>] else [])
           @ (if take (b - a) (drop a (text segment)) \<noteq> []
              then [overlapSegment selFg selBg selStyles segment (take (b - a) (drop a (text segment)))]
              else [])
           @ (if currentPos + int (length (text segment)) > selEnd
              then [segment\<lparr>text := drop b (text segment)\<rparr>] else [])"
proof -
  have ov: "js_slice (text segment) (max 0 (selStart - currentPos))
              (min (int (length (text segment))) (selEnd - currentPos))
            = take (b - a) (drop a (text segment))"
    unfolding a_def b_def using in2 by (rule overlapText_eq)
  have pre: "currentPos < selStart \<Longrightarrow>
             js_slice (text segment) 0 (selStart - currentPos) = take a (text segment)"
    by (simp add: js_slice_prefix a_def)
  have suf: "currentPos + int (length (text segment)) > selEnd \<Longrightarrow>
             js_slice_from (text segment) (selEnd - currentPos) = drop b (text segment)"
  proof -
    assume "currentPos + int (length (text segment)) > selEnd"
    then have "nat (selEnd - currentPos) \<le> length (text segment)" by linarith
    then have "b = nat (selEnd - currentPos)" by (simp add: b_def)
    with in2 show ?thesis by (simp add: js_slice_from_nonneg)
  qed
  have out: "\<not> (currentPos + int (length (text segment)) \<le> selStart \<or> currentPos \<ge> selEnd)"
    using in1 in2 by simp
  show ?thesis
    unfolding formatSegment_def Let_def ov
    using out pre suf by (simp only: if_False) (simp cong: if_cong)
qed

lemma text_overlapSegment [simp]: "text (overlapSegment selFg selBg selStyles segment t) = t"
  by (simp add: overlapSegment_def)

lemma textLength_formatSegment:
  assumes "selStart \<le> selEnd"
  shows "textLength (formatSegment selStart selEnd selFg selBg selStyles currentPos segment)
           = length (text segment)"
proof (cases "currentPos + int (length (text segment)) \<le> selStart \<or> currentPos \<ge> selEnd")
  case True
  then show ?thesis by (simp add: formatSegment_outside)
next
  case False
  then have in1: "selStart < currentPos + int (length (text segment))" and in2: "currentPos < selEnd"
    by auto
  show ?thesis
    using assms in1 in2 unfolding formatSegment_overlap [OF in1 in2]
    by (auto simp: min_def)
qed

lemma textLength_formatLoop:
  "selStart \<le> selEnd \<Longrightarrow>
   textLength (formatLoop selStart selEnd selFg selBg selStyles currentPos segs) = textLength segs"
  by (induction segs arbitrary: currentPos) (simp_all add: textLength_formatSegment)

lemma lengthInvariant_handleTextChange: "lengthInvariant (handleTextChange newText st)"
  by (simp add: lengthInvariant_def handleTextChange_def textLength_reconcileSegments)

lemma lengthInvariant_applyFormattingToSelection:
  "lengthInvariant st \<Longrightarrow> selectionOrdered st \<Longrightarrow> lengthInvariant (applyFormattingToSelection st)"
  by (auto simp: lengthInvariant_def selectionOrdered_def applyFormattingToSelection_def
      textLength_formatLoop split: option.splits)

lemma lengthInvariant_clearAll: "lengthInvariant (clearAll st)"
  by (simp add: lengthInvariant_def clearAll_def unstyledSegment_def)

lemma lengthInvariant_segmentsEffect: "lengthInvariant st \<Longrightarrow> lengthInvariant (segmentsEffect st)"
  by (simp add: lengthInvariant_def segmentsEffect_def unstyledSegment_def)

lemma lengthInvariant_handleEvent:
  "lengthInvariant st \<Longrightarrow> selectionOrdered st \<Longrightarrow> lengthInvariant (handleEvent ev st)"
proof (cases ev)
  case (TextChange newText)
  then show ?thesis by (simp add: lengthInvariant_handleTextChange)
next
  case (TextSelect start "end")
  assume "lengthInvariant st"
  with TextSelect show ?thesis by (simp add: lengthInvariant_def handleTextSelect_def)
next
  case ApplyFormatting
  assume "lengthInvariant st" "selectionOrdered st"
  with ApplyFormatting show ?thesis by (simp add: lengthInvariant_applyFormattingToSelection)
next
  case ClearAll
  then show ?thesis by (simp add: lengthInvariant_clearAll)
qed (simp_all add: lengthInvariant_def)

lemma selectionOrdered_handleEvent:
  "selectionOrdered st \<Longrightarrow> browserEvent ev \<Longrightarrow> selectionOrdered (handleEvent ev st)"
  by (cases ev)
    (auto simp: selectionOrdered_def handleTextChange_def handleTextSelect_def
      applyFormattingToSelection_def clearAll_def split: option.splits)

lemma selectionOrdered_segmentsEffect: "selectionOrdered (segmentsEffect st) = selectionOrdered st"
  by (auto simp: selectionOrdered_def segmentsEffect_def split: option.splits)

lemma run_snoc: "run (evs @ [ev]) = step (run evs) ev"
  by (simp add: run_def)

lemma run_invariants:
  "\<forall>ev \<in> set evs. browserEvent ev \<Longrightarrow> lengthInvariant (run evs) \<and> selectionOrdered (run evs)"
proof (induction evs rule: rev_induct)
  case Nil
  show ?case by (simp add: run_def initialState_def lengthInvariant_def selectionOrdered_def)
next
  case (snoc ev evs)
  then have "lengthInvariant (run evs)" "selectionOrdered (run evs)" "browserEvent ev"
    by simp_all
  then show ?case
    by (simp add: run_snoc step_def lengthInvariant_segmentsEffect lengthInvariant_handleEvent
        selectionOrdered_segmentsEffect selectionOrdered_handleEvent)
qed

section \<open>Facts about the encoder and the palettes\<close>

lemma foldl_encodeSegment:
  "foldl (\<lambda>result segment. result @ encodeSegment segment) header segs
     = header @ concat (map encodeSegment segs)"
  by (induction segs arbitrary: header) simp_all

lemma generateColoredText_eq:
  "generateColoredText st =
     (if trim (inputText st) = [] \<or> segments st = [] then []
      else ''```ansi'' @ [NL] @ concat (map encodeSegment (segments st)) @ [NL] @ ''```'')"
  by (simp add: generateColoredText_def foldl_encodeSegment)

lemma trim_eq_Nil_iff: "trim s = [] \<longleftrightarrow> (\<forall>c \<in> set s. is_whitespace c)"
proof
  assume "trim s = []"
  then have all: "\<forall>c \<in> set (dropWhile is_whitespace s). is_whitespace c"
    by (simp add: trim_def dropWhile_eq_Nil_conv)
  have "dropWhile is_whitespace s = []"
  proof (rule ccontr)
    assume ne: "dropWhile is_whitespace s \<noteq> []"
    then have "\<not> is_whitespace (hd (dropWhile is_whitespace s))"
      by (rule hd_dropWhile)
    moreover from ne have "hd (dropWhile is_whitespace s) \<in> set (dropWhile is_whitespace s)"
      by simp
    ultimately show False using all by blast
  qed
  then show "\<forall>c \<in> set s. is_whitespace c"
    by (simp add: dropWhile_eq_Nil_conv)
next
  assume "\<forall>c \<in> set s. is_whitespace c"
  then have "dropWhile is_whitespace s = []"
    by (induction s) simp_all
  then show "trim s = []"
    unfolding trim_def by (simp only: rev.simps dropWhile.simps)
qed

lemma lengthInvariant_no_segments:
  "lengthInvariant st \<Longrightarrow> segments st = [] \<Longrightarrow> inputText st = []"
  by (simp add: lengthInvariant_def)

lemma freshDocument_iff:
  "freshDocument segs \<longleftrightarrow>
     segs = [] \<or> (\<exists>seg. segs = [seg] \<and> \<not> truthy (foreground seg) \<and> \<not> truthy (background seg)
                       \<and> styles seg = [])"
  by (cases segs) (auto simp: freshDocument_def)

lemma foregroundColors_code: "c \<in> set foregroundColors \<Longrightarrow> code c \<noteq> []"
  by (auto simp: foregroundColors_def)

lemma backgroundColors_code: "c \<in> set backgroundColors \<Longrightarrow> code c \<noteq> []"
  by (auto simp: backgroundColors_def)

lemma trim_Nil [simp]: "trim [] = []"
  by (simp add: trim_def)

lemma segmentCodes_single:
  assumes "\<forall>c. selFg = Some c \<longrightarrow> code c \<noteq> []" and "\<forall>c. selBg = Some c \<longrightarrow> code c \<noteq> []"
  shows "segmentCodes \<lparr>text = t, foreground = map_option code selFg,
                       background = map_option code selBg, styles = sty\<rparr>
         = (if length sty > 0 then sty else [])
           @ (case selFg of Some c \<Rightarrow> [code c] | None \<Rightarrow> [])
           @ (case selBg of Some c \<Rightarrow> [code c] | None \<Rightarrow> [])"
  using assms by (simp add: segmentCodes_def split: option.splits)

lemma generateColoredText2_refined:
  assumes "\<forall>c. selFg = Some c \<longrightarrow> code c \<noteq> []" and "\<forall>c. selBg = Some c \<longrightarrow> code c \<noteq> []"
  shows "generateColoredText2
           \<lparr>inputText2 = t, selectedForeground2 = selFg, selectedBackground2 = selBg,
            selectedStyles2 = sty\<rparr>
         = generateColoredText
             (st\<lparr>inputText := t,
                 segments := [\<lparr>text = t, foreground = map_option code selFg,
                               background = map_option code selBg, styles = sty\<rparr>]\<rparr>)"
proof (cases "trim t = []")
  case True
  then show ?thesis by (simp add: generateColoredText2_def generateColoredText_eq)
next
  case False
  then have "t \<noteq> []" by auto
  with False show ?thesis
    by (simp add: generateColoredText2_def generateColoredText_eq encodeSegment_def Let_def
        segmentCodes_single [OF assms])
qed

lemma segmentCodes_eq:
  "segmentCodes seg = styles seg @ map the (filter truthy [foreground seg, background seg])"
  by (auto simp: segmentCodes_def truthy_def split: option.splits)

section \<open>Facts about the formatting loop\<close>

lemma formatLoop_append:
  "formatLoop selStart selEnd selFg selBg selStyles currentPos (xs @ ys) =
     formatLoop selStart selEnd selFg selBg selStyles currentPos xs
     @ formatLoop selStart selEnd selFg selBg selStyles (currentPos + int (textLength xs)) ys"
  by (induction xs arbitrary: currentPos) (simp_all add: add.assoc)

lemma styledChars_Nil [simp]: "styledChars [] = []"
  by (simp add: styledChars_def)

lemma styledChars_Cons [simp]:
  "styledChars (seg # segs) =
     map (\<lambda>c. (c, foreground seg, background seg, styles seg)) (text seg) @ styledChars segs"
  by (simp add: styledChars_def)

lemma styledChars_append [simp]: "styledChars (xs @ ys) = styledChars xs @ styledChars ys"
  by (simp add: styledChars_def)

lemma length_styledChars [simp]: "length (styledChars segs) = textLength segs"
  by (induction segs) simp_all

lemma nth_append3:
  "length xs = a \<Longrightarrow> length ys = b - a \<Longrightarrow> a \<le> b \<Longrightarrow> b \<le> i \<Longrightarrow>
   (xs @ ys @ zs) ! i = zs ! (i - b)"
  by (auto simp: nth_append)

lemma styledChars_formatSegment_outside_nth:
  assumes le: "selStart \<le> selEnd" and i: "i < length (text segment)"
    and out: "currentPos + int i < selStart \<or> selEnd \<le> currentPos + int i"
  shows "styledChars (formatSegment selStart selEnd selFg selBg selStyles currentPos segment) ! i
           = (text segment ! i, foreground segment, background segment, styles segment)"
proof (cases "currentPos + int (length (text segment)) \<le> selStart \<or> currentPos \<ge> selEnd")
  case True
  with i show ?thesis by (simp add: formatSegment_outside)
next
  case False
  then have in1: "selStart < currentPos + int (length (text segment))" and in2: "currentPos < selEnd"
    by auto
  define a where "a = nat (selStart - currentPos)"
  define b where "b = min (length (text segment)) (nat (selEnd - currentPos))"
  have ab: "a \<le> b" "b \<le> length (text segment)"
    using le in1 in2 by (auto simp: a_def b_def)
  let ?old = "\<lambda>c. (c, foreground segment, background segment, styles segment)"
  let ?ov = "overlapSegment selFg selBg selStyles segment (take (b - a) (drop a (text segment)))"
  let ?new = "\<lambda>c. (c, foreground ?ov, background ?ov, styles ?ov)"
  have a0: "\<not> currentPos < selStart \<Longrightarrow> a = 0"
    by (simp add: a_def)
  have bn: "\<not> selEnd < currentPos + int (length (text segment)) \<Longrightarrow> b = length (text segment)"
    by (auto simp: b_def)
  have chars: "styledChars (formatSegment selStart selEnd selFg selBg selStyles currentPos segment)
      = map ?old (take a (text segment)) @ map ?new (take (b - a) (drop a (text segment)))
        @ map ?old (drop b (text segment))"
    unfolding formatSegment_overlap [OF in1 in2, folded a_def b_def]
    using a0 bn by (auto simp: overlapSegment_def)
  show ?thesis
  proof (cases "currentPos + int i < selStart")
    case True
    then have "i < a" by (simp add: a_def)
    with i ab show ?thesis by (simp add: chars nth_append)
  next
    case False
    with out have "selEnd \<le> currentPos + int i" by simp
    then have bi: "b \<le> i" by (simp add: b_def)
    have "length (map ?old (take a (text segment))) = a"
      and "length (map ?new (take (b - a) (drop a (text segment)))) = b - a"
      using ab by simp_all
    then have "styledChars (formatSegment selStart selEnd selFg selBg selStyles currentPos segment) ! i
        = map ?old (drop b (text segment)) ! (i - b)"
      unfolding chars using ab(1) bi by (rule nth_append3)
    with i bi show ?thesis by simp

  qed
qed

lemma styledChars_formatLoop_outside_nth:
  assumes le: "selStart \<le> selEnd"
  shows "i < textLength segs \<Longrightarrow>
         currentPos + int i < selStart \<or> selEnd \<le> currentPos + int i \<Longrightarrow>
         styledChars (formatLoop selStart selEnd selFg selBg selStyles currentPos segs) ! i
           = styledChars segs ! i"
proof (induction segs arbitrary: i currentPos)
  case Nil
  then show ?case by simp
next
  case (Cons seg rest)
  let ?n = "length (text seg)"
  show ?case
  proof (cases "i < ?n")
    case True
    with Cons.prems le show ?thesis
      by (simp add: nth_append textLength_formatSegment styledChars_formatSegment_outside_nth)
  next
    case False
    then have "currentPos + int ?n + int (i - ?n) = currentPos + int i" by simp
    with False Cons.prems Cons.IH [of "i - ?n" "currentPos + int ?n"] le show ?thesis
      by (simp add: nth_append textLength_formatSegment)
  qed
qed

lemma js_or_idem: "js_or a (js_or a b) = js_or a b"
  by (simp add: js_or_def)

lemma formatSegment_formatSegment:
  assumes le: "selStart \<le> selEnd"
  shows "formatLoop selStart selEnd selFg selBg selStyles currentPos
           (formatSegment selStart selEnd selFg selBg selStyles currentPos segment)
         = formatSegment selStart selEnd selFg selBg selStyles currentPos segment"
proof (cases "currentPos + int (length (text segment)) \<le> selStart \<or> currentPos \<ge> selEnd")
  case True
  then show ?thesis by (simp add: formatSegment_outside)
next
  case False
  then have in1: "selStart < currentPos + int (length (text segment))" and in2: "currentPos < selEnd"
    by auto
  define a where "a = nat (selStart - currentPos)"
  define b where "b = min (length (text segment)) (nat (selEnd - currentPos))"
  have ab: "a \<le> b" "b \<le> length (text segment)" "a \<le> length (text segment)"
    using le in1 in2 by (auto simp: a_def b_def)
  let ?t = "text segment"
  let ?P = "if currentPos < selStart then [segment\<lparr>text := take a ?t\<rparr>] else []"
  let ?ovt = "take (b - a) (drop a ?t)"
  let ?O = "if ?ovt \<noteq> [] then [overlapSegment selFg selBg selStyles segment ?ovt] else []"
  let ?S = "if currentPos + int (length ?t) > selEnd then [segment\<lparr>text := drop b ?t\<rparr>] else []"
  let ?loop = "formatLoop selStart selEnd selFg selBg selStyles"
  have split: "formatSegment selStart selEnd selFg selBg selStyles currentPos segment = ?P @ ?O @ ?S"
    by (rule formatSegment_overlap [OF in1 in2, folded a_def b_def])
  have lenP: "currentPos + int (textLength ?P) = currentPos + int a"
    using ab by (simp add: a_def)
  have lenO: "currentPos + int a + int (textLength ?O) = currentPos + int b"
    using ab by simp
  have P: "?loop currentPos ?P = ?P"
  proof (cases "currentPos < selStart")
    case True
    then have "currentPos + int (length (take a ?t)) \<le> selStart"
      using ab by (simp add: a_def)
    with True show ?thesis by (simp add: formatSegment_outside)
  next
    case False
    then show ?thesis by simp
  qed
  have O: "?loop (currentPos + int a) ?O = ?O"
  proof (cases "?ovt = []")
    case True
    then show ?thesis by simp
  next
    case False
    then have lt: "a < b" using ab by simp
    let ?o = "overlapSegment selFg selBg selStyles segment ?ovt"
    have len: "length (text ?o) = b - a" using ab by simp
    have i1: "selStart < (currentPos + int a) + int (length (text ?o))"
      unfolding len using lt in1 ab by (simp add: a_def; linarith)
    have i2: "currentPos + int a < selEnd"
      using lt in2 le by (simp add: a_def b_def; linarith)
    have a': "nat (selStart - (currentPos + int a)) = 0"
      by (simp add: a_def)
    have b': "min (length (text ?o)) (nat (selEnd - (currentPos + int a))) = b - a"
      unfolding len using lt in2 by (simp add: a_def b_def; linarith)
    have no_pre: "\<not> currentPos + int a < selStart"
      by (simp add: a_def)
    have no_suf: "\<not> currentPos + int a + int (length (text ?o)) > selEnd"
      unfolding len using lt in2 by (simp add: a_def b_def; linarith)
    have "formatSegment selStart selEnd selFg selBg selStyles (currentPos + int a) ?o = [?o]"
      unfolding formatSegment_overlap [OF i1 i2] a' b'
      using no_pre no_suf False by (simp add: overlapSegment_def js_or_idem)
    with False show ?thesis by simp
  qed
  have S: "?loop (currentPos + int b) ?S = ?S"
  proof (cases "currentPos + int (length ?t) > selEnd")
    case True
    then have "currentPos + int b \<ge> selEnd"
      using in2 by (simp add: b_def min_def)
    with True show ?thesis by (simp add: formatSegment_outside)
  next
    case False
    then show ?thesis by simp
  qed
  have "?loop currentPos (?P @ ?O @ ?S) = ?loop currentPos ?P @ ?loop (currentPos + int a) ?O
          @ ?loop (currentPos + int b) ?S"
    by (simp only: formatLoop_append lenP lenO)
  with P O S show ?thesis by (simp only: split)
qed

lemma formatLoop_idem:
  assumes "selStart \<le> selEnd"
  shows "formatLoop selStart selEnd selFg selBg selStyles currentPos
           (formatLoop selStart selEnd selFg selBg selStyles currentPos segs)
         = formatLoop selStart selEnd selFg selBg selStyles currentPos segs"
proof (induction segs arbitrary: currentPos)
  case Nil
  show ?case by simp
next
  case (Cons seg rest)
  show ?case
    by (simp add: formatLoop_append formatSegment_formatSegment [OF assms]
        textLength_formatSegment [OF assms] Cons.IH)
qed

lemma js_or_code:
  "js_or (map_option code sel) v =
     (case sel of None \<Rightarrow> v | Some c \<Rightarrow> if code c = [] then v else Some (code c))"
  by (simp add: js_or_def truthy_def split: option.splits)

lemma formatSegment_no_empty:
  assumes "selStart < selEnd" and "text segment \<noteq> []"
  shows "list_all (\<lambda>piece. text piece \<noteq> [])
           (formatSegment selStart selEnd selFg selBg selStyles currentPos segment)"
proof (cases "currentPos + int (length (text segment)) \<le> selStart \<or> currentPos \<ge> selEnd")
  case True
  with assms(2) show ?thesis by (simp add: formatSegment_outside)
next
  case False
  then have in1: "selStart < currentPos + int (length (text segment))" and in2: "currentPos < selEnd"
    by auto
  define a where "a = nat (selStart - currentPos)"
  define b where "b = min (length (text segment)) (nat (selEnd - currentPos))"
  have n0: "0 < length (text segment)" using assms(2) by simp
  have pre: "currentPos < selStart \<Longrightarrow> take a (text segment) \<noteq> []"
    using assms(2) by (simp add: a_def)
  have suf: "currentPos + int (length (text segment)) > selEnd \<Longrightarrow> drop b (text segment) \<noteq> []"
    using in2 by (simp add: b_def min_def; linarith)
  show ?thesis
    unfolding formatSegment_overlap [OF in1 in2, folded a_def b_def]
    using pre suf by (simp del: take_eq_Nil drop_eq_Nil take_eq_Nil2 drop_eq_Nil2)
qed

lemma formatLoop_no_empty:
  assumes "selStart < selEnd"
  shows "list_all (\<lambda>seg. text seg \<noteq> []) segs \<Longrightarrow>
         list_all (\<lambda>seg. text seg \<noteq> [])
           (formatLoop selStart selEnd selFg selBg selStyles currentPos segs)"
  by (induction segs arbitrary: currentPos) (simp_all add: formatSegment_no_empty [OF assms])

lemma shrinkLoop_no_empty:
  "list_all (\<lambda>seg. text seg \<noteq> []) segs \<Longrightarrow>
   list_all (\<lambda>seg. text seg \<noteq> []) (shrinkLoop remaining segs)"
proof (induction segs arbitrary: remaining)
  case Nil
  show ?case by simp
next
  case (Cons seg rest)
  then show ?case
    by (auto simp: js_slice_prefix shrinkLoop_nonpos)
qed

lemma list_all_butlast: "list_all P xs \<Longrightarrow> list_all P (butlast xs)"
  by (induction xs) simp_all

lemma list_all_last: "list_all P xs \<Longrightarrow> xs \<noteq> [] \<Longrightarrow> P (last xs)"
  by (induction xs) (simp_all split: if_splits)

lemma freshDocument_unstyledSegment [simp]: "freshDocument [unstyledSegment t]"
  by (simp add: freshDocument_def unstyledSegment_def truthy_def)

lemma reconcileSegments_no_empty:
  assumes "list_all (\<lambda>seg. text seg \<noteq> []) segs" and "\<not> freshDocument segs"
  shows "list_all (\<lambda>seg. text seg \<noteq> []) (reconcileSegments segs newText)"
proof -
  from assms(2) have ne: "segs \<noteq> []" by auto
  consider "length newText > textLength segs" | "length newText < textLength segs"
    | "length newText = textLength segs"
    by linarith
  then show ?thesis
  proof cases
    case 1
    with assms list_all_butlast [OF assms(1)] list_all_last [OF assms(1) ne] show ?thesis
      by (simp add: reconcileSegments_grow)
  next
    case 2
    with assms show ?thesis
      by (simp add: reconcileSegments_shrink shrinkLoop_no_empty)
  next
    case 3
    with assms show ?thesis
      by (simp add: reconcileSegments_same)
  qed
qed

lemma segmentsTidy_handleTextChange:
  assumes "segmentsTidy st"
  shows "segmentsTidy (handleTextChange newText st)"
proof (cases "freshDocument (segments st)")
  case True
  then show ?thesis
    by (cases "newText = []")
      (simp_all add: segmentsTidy_def handleTextChange_def reconcileSegments_fresh unstyledSegment_def)
next
  case False
  with assms have "list_all (\<lambda>seg. text seg \<noteq> []) (segments st)"
    by (auto simp: segmentsTidy_def)
  with False show ?thesis
    by (simp add: segmentsTidy_def handleTextChange_def reconcileSegments_no_empty)
qed

lemma formatSegment_unstyled_empty:
  "0 \<le> selStart \<Longrightarrow>
   formatSegment selStart selEnd selFg selBg selStyles 0 (unstyledSegment []) = [unstyledSegment []]"
  by (simp add: formatSegment_outside unstyledSegment_def)

lemma segmentsTidy_applyFormattingToSelection:
  assumes "segmentsTidy st" and "selectionOrdered st"
  shows "segmentsTidy (applyFormattingToSelection st)"
proof (cases "selectionStart st")
  case None
  with assms(1) show ?thesis by (simp add: applyFormattingToSelection_def)
next
  case s: (Some selStart)
  show ?thesis
  proof (cases "selectionEnd st")
    case None
    with s assms(1) show ?thesis by (simp add: applyFormattingToSelection_def)
  next
    case e: (Some selEnd)
    show ?thesis
    proof (cases "selStart = selEnd")
      case True
      with s e assms(1) show ?thesis by (simp add: applyFormattingToSelection_def)
    next
      case False
      with s e assms(2) have ord: "0 \<le> selStart" "selStart < selEnd"
        by (simp_all add: selectionOrdered_def)
      from assms(1) show ?thesis
        unfolding segmentsTidy_def
      proof
        assume "list_all (\<lambda>seg. text seg \<noteq> []) (segments st)"
        with s e False ord show "list_all (\<lambda>seg. text seg \<noteq> []) (segments (applyFormattingToSelection st))
          \<or> (inputText (applyFormattingToSelection st) = []
              \<and> segments (applyFormattingToSelection st) = [unstyledSegment []])"
          by (simp add: applyFormattingToSelection_def formatLoop_no_empty)
      next
        assume "inputText st = [] \<and> segments st = [unstyledSegment []]"
        with s e False ord show "list_all (\<lambda>seg. text seg \<noteq> []) (segments (applyFormattingToSelection st))
          \<or> (inputText (applyFormattingToSelection st) = []
              \<and> segments (applyFormattingToSelection st) = [unstyledSegment []])"
          by (simp add: applyFormattingToSelection_def formatSegment_unstyled_empty)
      qed
    qed
  qed
qed

lemma segmentsTidy_clearAll: "segmentsTidy (clearAll st)"
  by (cases "inputText st = []") (simp_all add: segmentsTidy_def clearAll_def unstyledSegment_def)

lemma segmentsTidy_segmentsEffect: "segmentsTidy st \<Longrightarrow> segmentsTidy (segmentsEffect st)"
  by (auto simp: segmentsTidy_def segmentsEffect_def unstyledSegment_def)

lemma segmentsTidy_handleEvent:
  "segmentsTidy st \<Longrightarrow> selectionOrdered st \<Longrightarrow> segmentsTidy (handleEvent ev st)"
proof (cases ev)
  case (TextChange newText)
  assume "segmentsTidy st"
  with TextChange show ?thesis by (simp add: segmentsTidy_handleTextChange)
next
  case (TextSelect start "end")
  assume "segmentsTidy st"
  with TextSelect show ?thesis by (simp add: segmentsTidy_def handleTextSelect_def)
next
  case ApplyFormatting
  assume "segmentsTidy st" "selectionOrdered st"
  with ApplyFormatting show ?thesis by (simp add: segmentsTidy_applyFormattingToSelection)
next
  case ClearAll
  then show ?thesis by (simp add: segmentsTidy_clearAll)
qed (simp_all add: segmentsTidy_def)

lemma run_segmentsTidy: "list_all browserEvent evs \<Longrightarrow> segmentsTidy (run evs)"
proof (induction evs rule: rev_induct)
  case Nil
  show ?case by (simp add: run_def initialState_def segmentsTidy_def)
next
  case (snoc ev evs)
  then have "segmentsTidy (run evs)" and "selectionOrdered (run evs)"
    using run_invariants [of evs] by (simp_all add: list_all_iff)
  then show ?case
    by (simp add: run_snoc step_def segmentsTidy_segmentsEffect segmentsTidy_handleEvent)
qed

section \<open>Length conservation\<close>



section \<open>Style application outside the selection\<close>

text \<open>
  Claim C2. Let the stored selection be \<open>[selStart, selEnd)\<close> with
  \<open>selStart \<le> selEnd\<close>. \<open>applyFormattingToSelection\<close> leaves \<open>inputText\<close> as it is, and
  every character at a position before \<open>selStart\<close> or at or after \<open>selEnd\<close> is the same
  character with the same foreground, background and style flags as before.
\<close>

theorem style_application_frame:
  assumes "selectionStart st = Some selStart" and "selectionEnd st = Some selEnd"
    and "selStart \<le> selEnd"
  shows "inputText (applyFormattingToSelection st) = inputText st
       \<and> length (styledChars (segments (applyFormattingToSelection st)))
           = length (styledChars (segments st))
       \<and> (\<forall>i < length (styledChars (segments st)).
            int i < selStart \<or> selEnd \<le> int i \<longrightarrow>
            styledChars (segments (applyFormattingToSelection st)) ! i
              = styledChars (segments st) ! i)"
  using assms
  by (auto simp: applyFormattingToSelection_def textLength_formatLoop
      styledChars_formatLoop_outside_nth)

theorem style_application_frame_witness:
  "selectionStart
     \<lparr>inputText = ''hello'',
      segments = [\<lparr>text = ''hello'', foreground = Some ''31'', background = None, styles = []\<rparr>],
      selectedForeground = None, selectedBackground = Some (backgroundColors ! 5),
      selectedStyles = [], selectionStart = Some 1, selectionEnd = Some 3\<rparr> = Some 1
   \<and> (1::int) \<le> 3
   \<and> styledChars (segments (applyFormattingToSelection
       \<lparr>inputText = ''hello'',
        segments = [\<lparr>text = ''hello'', foreground = Some ''31'', background = None, styles = []\<rparr>],
        selectedForeground = None, selectedBackground = Some (backgroundColors ! 5),
        selectedStyles = [], selectionStart = Some 1, selectionEnd = Some 3\<rparr>)) ! 0
       = (CHR ''h'', Some ''31'', None, [])
   \<and> styledChars (segments (applyFormattingToSelection
       \<lparr>inputText = ''hello'',
        segments = [\<lparr>text = ''hello'', foreground = Some ''31'', background = None, styles = []\<rparr>],
        selectedForeground = None, selectedBackground = Some (backgroundColors ! 5),
        selectedStyles = [], selectionStart = Some 1, selectionEnd = Some 3\<rparr>)) ! 3
       = (CHR ''l'', Some ''31'', None, [])"
proof -
  let ?S = "\<lparr>inputText = ''hello'',
        segments = [\<lparr>text = ''hello'', foreground = Some ''31'', background = None, styles = []\<rparr>],
        selectedForeground = None, selectedBackground = Some (backgroundColors ! 5),
        selectedStyles = [], selectionStart = Some 1, selectionEnd = Some 3\<rparr>"
  have h1: "selectionStart ?S = Some 1" and h2: "selectionEnd ?S = Some 3" and le: "(1::int) \<le> 3"
    by simp_all
  have len: "length (styledChars (segments ?S)) = 5"
    by simp
  have b0: "styledChars (segments ?S) ! 0 = (CHR ''h'', Some ''31'', None, [])"
    and b3: "styledChars (segments ?S) ! 3 = (CHR ''l'', Some ''31'', None, [])"
    by simp_all
  from style_application_frame [OF h1 h2 le]
  have fr: "\<forall>i < length (styledChars (segments ?S)). int i < 1 \<or> 3 \<le> int i \<longrightarrow>
              styledChars (segments (applyFormattingToSelection ?S)) ! i
                = styledChars (segments ?S) ! i"
    by blast
  have "styledChars (segments (applyFormattingToSelection ?S)) ! 0 = styledChars (segments ?S) ! 0"
    using fr [rule_format, of 0] len by simp
  moreover have "styledChars (segments (applyFormattingToSelection ?S)) ! 3
                   = styledChars (segments ?S) ! 3"
    using fr [rule_format, of 3] len by simp
  ultimately show ?thesis
    using h1 le b0 b3 by (simp only: simp_thms)
qed

section \<open>Per-attribute merge\<close>

text \<open>
  Claim C3. Let a segment with a non-empty text overlap the selection. After
  \<open>applyFormattingToSelection\<close> the Document holds, at the position where the overlap
  starts, a segment whose text is the overlapping slice and whose attributes are merged
  one by one: with no foreground picked it keeps the foreground of the segment it was cut
  from, otherwise it gets the picked code; likewise for the background; the style flags
  are the picked ones when any is picked and the segment's own otherwise. So a segment
  with foreground 31, restyled with only a background picked, keeps foreground 31 and
  gains that background.
\<close>

theorem per_attribute_merge:
  assumes sel: "selectionStart st = Some selStart" "selectionEnd st = Some selEnd"
      "selStart < selEnd"
    and doc: "segments st = before @ segment # after"
    and ne: "text segment \<noteq> []"
    and ov: "int (textLength before) < selEnd"
      "selStart < int (textLength before) + int (length (text segment))"
  shows "\<exists>pre post.
           segments (applyFormattingToSelection st) =
             pre
             @ [\<lparr>text = js_slice (text segment) (max 0 (selStart - int (textLength before)))
                        (min (int (length (text segment))) (selEnd - int (textLength before))),
                 foreground = (case selectedForeground st of
                                 None \<Rightarrow> foreground segment
                               | Some c \<Rightarrow> if code c = [] then foreground segment else Some (code c)),
                 background = (case selectedBackground st of
                                 None \<Rightarrow> background segment
                               | Some c \<Rightarrow> if code c = [] then background segment else Some (code c)),
                 styles = (if selectedStyles st = [] then styles segment else selectedStyles st)\<rparr>]
             @ post
         \<and> int (textLength pre) = max (int (textLength before)) selStart"
proof -
  let ?cp = "int (textLength before)"
  let ?t = "text segment"
  let ?loop = "formatLoop selStart selEnd (selectedForeground st) (selectedBackground st)
                 (selectedStyles st)"
  define a where "a = nat (selStart - ?cp)"
  define b where "b = min (length ?t) (nat (selEnd - ?cp))"
  let ?P = "if ?cp < selStart then [segment\<lparr>text := take a ?t\<rparr>] else []"
  let ?S = "if ?cp + int (length ?t) > selEnd then [segment\<lparr>text := drop b ?t\<rparr>] else []"
  let ?o = "overlapSegment (selectedForeground st) (selectedBackground st) (selectedStyles st)
              segment (take (b - a) (drop a ?t))"
  have n0: "0 < length ?t" using ne by simp
  have "a < length ?t" using n0 ov(2) unfolding a_def by linarith
  moreover have "a < nat (selEnd - ?cp)" using sel(3) ov(1) unfolding a_def by linarith
  ultimately have lt: "a < b" "b \<le> length ?t"
    by (simp_all add: b_def)
  then have "take (b - a) (drop a ?t) \<noteq> []" by simp
  then have seg: "formatSegment selStart selEnd (selectedForeground st) (selectedBackground st)
                    (selectedStyles st) ?cp segment = ?P @ [?o] @ ?S"
    unfolding formatSegment_overlap [OF ov(2) ov(1), folded a_def b_def] by simp
  have slice: "js_slice ?t (max 0 (selStart - ?cp)) (min (int (length ?t)) (selEnd - ?cp))
                 = take (b - a) (drop a ?t)"
    unfolding a_def b_def using ov(1) by (rule overlapText_eq)
  have "segments (applyFormattingToSelection st) = ?loop 0 (before @ segment # after)"
    using sel doc by (simp add: applyFormattingToSelection_def)
  also have "\<dots> = (?loop 0 before @ ?P) @ [?o] @ (?S @ ?loop (?cp + int (length ?t)) after)"
    by (simp add: formatLoop_append seg)
  finally have eq: "segments (applyFormattingToSelection st)
      = (?loop 0 before @ ?P) @ [?o] @ (?S @ ?loop (?cp + int (length ?t)) after)" .
  have o: "?o = \<lparr>text = js_slice ?t (max 0 (selStart - ?cp)) (min (int (length ?t)) (selEnd - ?cp)),
                 foreground = (case selectedForeground st of
                                 None \<Rightarrow> foreground segment
                               | Some c \<Rightarrow> if code c = [] then foreground segment else Some (code c)),
                 background = (case selectedBackground st of
                                 None \<Rightarrow> background segment
                               | Some c \<Rightarrow> if code c = [] then background segment else Some (code c)),
                 styles = (if selectedStyles st = [] then styles segment else selectedStyles st)\<rparr>"
    unfolding slice by (simp add: overlapSegment_def js_or_code)
  have len: "int (textLength (?loop 0 before @ ?P)) = max ?cp selStart"
    using sel(3) lt by (simp add: textLength_formatLoop a_def)
  from eq [unfolded o] len show ?thesis by blast
qed

theorem per_attribute_merge_witness:
  "text \<lparr>text = ''hello'', foreground = Some ''31'', background = None, styles = []\<rparr> \<noteq> []
   \<and> (1::int) < 3
   \<and> (\<exists>pre post.
        segments (applyFormattingToSelection
          \<lparr>inputText = ''hello'',
           segments = [\<lparr>text = ''hello'', foreground = Some ''31'', background = None, styles = []\<rparr>],
           selectedForeground = None,
           selectedBackground = Some \<lparr>name = ''Blurple'', code = ''45'', preview = ''#6c71c4'',
                                      type = BackgroundType\<rparr>,
           selectedStyles = [], selectionStart = Some 1, selectionEnd = Some 3\<rparr>)
        = pre @ [\<lparr>text = ''el'', foreground = Some ''31'', background = Some ''45'', styles = []\<rparr>]
            @ post
        \<and> int (textLength pre) = 1)"
  using per_attribute_merge [of
      "\<lparr>inputText = ''hello'',
        segments = [\<lparr>text = ''hello'', foreground = Some ''31'', background = None, styles = []\<rparr>],
        selectedForeground = None,
        selectedBackground = Some \<lparr>name = ''Blurple'', code = ''45'', preview = ''#6c71c4'',
                                   type = BackgroundType\<rparr>,
        selectedStyles = [], selectionStart = Some 1, selectionEnd = Some 3\<rparr>" 1 3
      "[]" "\<lparr>text = ''hello'', foreground = Some ''31'', background = None, styles = []\<rparr>" "[]"]
  by (simp add: js_slice_def)

section \<open>Order of the codes of a span\<close>

text \<open>
  Claim C4 says that the style codes of a span come out in the declared order, bold (1)
  before underline (4), whatever the order in which the flags were toggled or stored. The
  code does not do that: with underline switched on before bold, the stored list is
  \<open>["4", "1"]\<close> and the span opens with \<open>ESC[4;1m\<close>.
\<close>

theorem declared_style_order_counterexample:
  "toggleStyle ''1'' (toggleStyle ''4'' []) = [''4'', ''1'']
   \<and> segments (run [TextChange ''hi'', ToggleStyle ''4'', ToggleStyle ''1'', TextSelect 0 2,
          ApplyFormatting])
       = [\<lparr>text = ''hi'', foreground = None, background = None, styles = [''4'', ''1'']\<rparr>]
   \<and> generateColoredText (run [TextChange ''hi'', ToggleStyle ''4'', ToggleStyle ''1'',
          TextSelect 0 2, ApplyFormatting])
       = ''```ansi'' @ [NL, ESC] @ ''[4;1mhi'' @ [ESC] @ ''[0m'' @ [NL] @ ''```''
   \<and> generateColoredText (run [TextChange ''hi'', ToggleStyle ''4'', ToggleStyle ''1'',
          TextSelect 0 2, ApplyFormatting])
       \<noteq> ''```ansi'' @ [NL, ESC] @ ''[1;4mhi'' @ [ESC] @ ''[0m'' @ [NL] @ ''```''"
  by code_simp

text \<open>
  Claim C4, amended. For every segment with a non-empty text and at least one attribute,
  the encoder emits the codes joined by semicolons: the style codes first, in the order in
  which the segment stores them, then the foreground code, then the background code.
  \<open>toggleStyle\<close> puts a flag that is switched on at the end of the list, so the stored
  order is the order of toggling.
\<close>

theorem codes_in_stored_order:
  assumes "text seg \<noteq> []"
    and "styles seg \<noteq> [] \<or> truthy (foreground seg) \<or> truthy (background seg)"
  shows "encodeSegment seg =
           [ESC] @ ''['' @
           js_join '';'' (styles seg @ map the (filter truthy [foreground seg, background seg]))
           @ ''m'' @ text seg @ [ESC] @ ''[0m''
         \<and> (\<forall>c prev. c \<notin> set prev \<longrightarrow> toggleStyle c prev = prev @ [c])"
  using assms by (auto simp: encodeSegment_def Let_def segmentCodes_eq toggleStyle_def)

theorem codes_in_stored_order_witness:
  "text \<lparr>text = ''hi'', foreground = Some ''31'', background = Some ''45'',
          styles = toggleStyle ''1'' (toggleStyle ''4'' [])\<rparr> \<noteq> []
   \<and> styles \<lparr>text = ''hi'', foreground = Some ''31'', background = Some ''45'',
          styles = toggleStyle ''1'' (toggleStyle ''4'' [])\<rparr> \<noteq> []
   \<and> encodeSegment \<lparr>text = ''hi'', foreground = Some ''31'', background = Some ''45'',
          styles = toggleStyle ''1'' (toggleStyle ''4'' [])\<rparr>
       = [ESC] @ ''[4;1;31;45mhi'' @ [ESC] @ ''[0m''
   \<and> toggleStyle ''1'' [''4''] = [''4'', ''1'']"
  using codes_in_stored_order [of "\<lparr>text = ''hi'', foreground = Some ''31'', background = Some ''45'',
          styles = toggleStyle ''1'' (toggleStyle ''4'' [])\<rparr>"]
  by (simp add: toggleStyle_def truthy_def)

section \<open>Empty segments\<close>

text \<open>
  Claim C5 says that after every operation no segment has an empty text. Typing one
  character and deleting it leaves one segment whose text is empty.
\<close>

theorem no_empty_segment_counterexample:
  "segments (run [TextChange ''a'', TextChange ''''])
     = [\<lparr>text = [], foreground = None, background = None, styles = []\<rparr>]"
  by code_simp

text \<open>
  Claim C5, amended. After every sequence of events, either no segment has an empty text,
  or the input text is empty and the Document is the one unstyled segment with the empty
  text. The split of a segment with a non-empty text by a non-empty selection produces no
  piece with an empty text.
\<close>

theorem no_empty_segment_unless_text_empty:
  assumes "list_all browserEvent evs"
  shows "(list_all (\<lambda>seg. text seg \<noteq> []) (segments (run evs))
          \<or> (inputText (run evs) = []
              \<and> segments (run evs)
                  = [\<lparr>text = [], foreground = None, background = None, styles = []\<rparr>]))
       \<and> (\<forall>selStart selEnd selFg selBg selStyles currentPos segment.
            selStart < selEnd \<and> text segment \<noteq> [] \<longrightarrow>
            list_all (\<lambda>piece. text piece \<noteq> [])
              (formatSegment selStart selEnd selFg selBg selStyles currentPos segment))"
  using run_segmentsTidy [OF assms]
  by (simp add: segmentsTidy_def unstyledSegment_def formatSegment_no_empty)

theorem no_empty_segment_unless_text_empty_witness:
  "list_all browserEvent [TextChange ''hello'', TextSelect 1 3,
      PickForeground (foregroundColors ! 1), ApplyFormatting]
   \<and> list_all (\<lambda>seg. text seg \<noteq> [])
        (segments (run [TextChange ''hello'', TextSelect 1 3,
           PickForeground (foregroundColors ! 1), ApplyFormatting]))
   \<and> list_all (\<lambda>piece. text piece \<noteq> [])
        (formatSegment 1 3 None None [] 0 (unstyledSegment ''hello''))"
proof -
  have ev: "list_all browserEvent [TextChange ''hello'', TextSelect 1 3,
      PickForeground (foregroundColors ! 1), ApplyFormatting]"
    by simp
  have t: "inputText (run [TextChange ''hello'', TextSelect 1 3,
      PickForeground (foregroundColors ! 1), ApplyFormatting]) \<noteq> []"
    by code_simp
  have p: "(1::int) < 3 \<and> text (unstyledSegment ''hello'') \<noteq> []"
    by (simp add: unstyledSegment_def)
  from no_empty_segment_unless_text_empty [OF ev] t p ev show ?thesis by blast
qed

section \<open>What the output depends on\<close>

text \<open>
  Claim C6 says that two states with the same segment list, each satisfying the length
  invariant, encode to the same string. \<open>generateColoredText\<close> also reads \<open>inputText\<close>:
  after a text of the same length replaces the old one the segments are unchanged, and a
  blank replacement makes the output empty.
\<close>

theorem output_reads_input_text_counterexample:
  "segments (run [TextChange ''ab'', TextSelect 0 2, PickForeground (foregroundColors ! 1),
        ApplyFormatting])
     = segments (run [TextChange ''ab'', TextSelect 0 2, PickForeground (foregroundColors ! 1),
        ApplyFormatting, TextChange ''  ''])
   \<and> lengthInvariant (run [TextChange ''ab'', TextSelect 0 2, PickForeground (foregroundColors ! 1),
        ApplyFormatting])
   \<and> lengthInvariant (run [TextChange ''ab'', TextSelect 0 2, PickForeground (foregroundColors ! 1),
        ApplyFormatting, TextChange ''  ''])
   \<and> generateColoredText (run [TextChange ''ab'', TextSelect 0 2,
        PickForeground (foregroundColors ! 1), ApplyFormatting])
       = ''```ansi'' @ [NL, ESC] @ ''[31mab'' @ [ESC] @ ''[0m'' @ [NL] @ ''```''
   \<and> generateColoredText (run [TextChange ''ab'', TextSelect 0 2,
        PickForeground (foregroundColors ! 1), ApplyFormatting, TextChange ''  '']) = []"
  by code_simp

text \<open>
  Claim C6, amended. Two states with the same segment list whose input texts are both
  blank or both not blank encode to the same string. A non-empty output is the fence
  around the spans of the segments, concatenated in the order of the list, one span per
  segment.
\<close>

theorem output_determined_by_segments_and_blankness:
  assumes "segments a = segments b"
    and "list_all is_whitespace (inputText a) = list_all is_whitespace (inputText b)"
  shows "generateColoredText a = generateColoredText b
       \<and> (generateColoredText a \<noteq> [] \<longrightarrow>
            generateColoredText a
              = ''```ansi'' @ [NL] @ concat (map encodeSegment (segments a)) @ [NL] @ ''```'')"
  using assms by (simp add: generateColoredText_eq trim_eq_Nil_iff list_all_iff)

theorem output_determined_by_segments_and_blankness_witness:
  "segments (run [TextChange ''ab'', TextSelect 0 2, PickForeground (foregroundColors ! 1),
        ApplyFormatting])
     = segments (run [TextChange ''ab'', TextSelect 0 2, PickForeground (foregroundColors ! 1),
        ApplyFormatting, TextChange ''cd''])
   \<and> list_all is_whitespace (inputText (run [TextChange ''ab'', TextSelect 0 2,
        PickForeground (foregroundColors ! 1), ApplyFormatting]))
     = list_all is_whitespace (inputText (run [TextChange ''ab'', TextSelect 0 2,
        PickForeground (foregroundColors ! 1), ApplyFormatting, TextChange ''cd'']))
   \<and> generateColoredText (run [TextChange ''ab'', TextSelect 0 2,
        PickForeground (foregroundColors ! 1), ApplyFormatting])
     = generateColoredText (run [TextChange ''ab'', TextSelect 0 2,
        PickForeground (foregroundColors ! 1), ApplyFormatting, TextChange ''cd''])"
proof -
  have s: "segments (run [TextChange ''ab'', TextSelect 0 2, PickForeground (foregroundColors ! 1),
        ApplyFormatting])
     = segments (run [TextChange ''ab'', TextSelect 0 2, PickForeground (foregroundColors ! 1),
        ApplyFormatting, TextChange ''cd''])"
    by code_simp
  have w: "list_all is_whitespace (inputText (run [TextChange ''ab'', TextSelect 0 2,
        PickForeground (foregroundColors ! 1), ApplyFormatting]))
     = list_all is_whitespace (inputText (run [TextChange ''ab'', TextSelect 0 2,
        PickForeground (foregroundColors ! 1), ApplyFormatting, TextChange ''cd'']))"
    by code_simp
  from output_determined_by_segments_and_blankness [OF s w] s w show ?thesis
    by (intro conjI) simp_all
qed

section \<open>Idempotence of style application\<close>

text \<open>
  Claim C7. Select \<open>[selStart, selEnd)\<close> with \<open>selStart \<le> selEnd\<close> and apply the chosen
  styles; then select the same range and apply the same choices again. The state after the
  second application, and so its Document, is the state after the first.
\<close>

theorem restyle_idempotent:
  assumes "selStart \<le> selEnd"
  shows "applyFormattingToSelection
           (handleTextSelect selStart selEnd
              (applyFormattingToSelection (handleTextSelect selStart selEnd st)))
         = applyFormattingToSelection (handleTextSelect selStart selEnd st)"
  using assms
  by (simp add: applyFormattingToSelection_def handleTextSelect_def formatLoop_idem)

theorem restyle_idempotent_witness:
  "(1::int) \<le> 3
   \<and> applyFormattingToSelection (handleTextSelect 1 3 (applyFormattingToSelection (handleTextSelect 1 3
       \<lparr>inputText = ''hello'',
        segments = [\<lparr>text = ''hello'', foreground = Some ''31'', background = None, styles = []\<rparr>],
        selectedForeground = None, selectedBackground = Some (backgroundColors ! 5),
        selectedStyles = [''1''], selectionStart = None, selectionEnd = None\<rparr>)))
     = applyFormattingToSelection (handleTextSelect 1 3
       \<lparr>inputText = ''hello'',
        segments = [\<lparr>text = ''hello'', foreground = Some ''31'', background = None, styles = []\<rparr>],
        selectedForeground = None, selectedBackground = Some (backgroundColors ! 5),
        selectedStyles = [''1''], selectionStart = None, selectionEnd = None\<rparr>)
   \<and> segments (applyFormattingToSelection (handleTextSelect 1 3
       \<lparr>inputText = ''hello'',
        segments = [\<lparr>text = ''hello'', foreground = Some ''31'', background = None, styles = []\<rparr>],
        selectedForeground = None, selectedBackground = Some (backgroundColors ! 5),
        selectedStyles = [''1''], selectionStart = None, selectionEnd = None\<rparr>))
     = [\<lparr>text = ''h'', foreground = Some ''31'', background = None, styles = []\<rparr>,
        \<lparr>text = ''el'', foreground = Some ''31'', background = Some ''45'', styles = [''1'']\<rparr>,
        \<lparr>text = ''lo'', foreground = Some ''31'', background = None, styles = []\<rparr>]"
proof -
  have v: "segments (applyFormattingToSelection (handleTextSelect 1 3
       \<lparr>inputText = ''hello'',
        segments = [\<lparr>text = ''hello'', foreground = Some ''31'', background = None, styles = []\<rparr>],
        selectedForeground = None, selectedBackground = Some (backgroundColors ! 5),
        selectedStyles = [''1''], selectionStart = None, selectionEnd = None\<rparr>))
     = [\<lparr>text = ''h'', foreground = Some ''31'', background = None, styles = []\<rparr>,
        \<lparr>text = ''el'', foreground = Some ''31'', background = Some ''45'', styles = [''1'']\<rparr>,
        \<lparr>text = ''lo'', foreground = Some ''31'', background = None, styles = []\<rparr>]"
    by code_simp
  have le: "(1::int) \<le> 3" by simp
  from restyle_idempotent [OF le] le v show ?thesis by blast
qed

section \<open>Growth of the text\<close>

text \<open>
  Claim C8. When \<open>handleTextChange\<close> receives a text longer than the segments hold, it
  appends the part of the new text beyond the old length to the text of the last segment
  and keeps that segment's foreground, background and style flags, and every earlier
  segment; except that when there was no segment, or exactly one segment with no
  foreground, no background and no style flag, the segments become one unstyled segment
  that holds the whole new text.
\<close>

theorem growth_appends_to_last_segment:
  assumes "length newText > textLength (segments st)"
  shows "inputText (handleTextChange newText st) = newText
       \<and> segments (handleTextChange newText st) =
          (if segments st = []
              \<or> (\<exists>seg. segments st = [seg] \<and> \<not> truthy (foreground seg)
                    \<and> \<not> truthy (background seg) \<and> styles seg = [])
           then [\<lparr>text = newText, foreground = None, background = None, styles = []\<rparr>]
           else butlast (segments st)
                @ [(last (segments st))
                    \<lparr>text := text (last (segments st)) @ drop (textLength (segments st)) newText\<rparr>])"
proof (cases "freshDocument (segments st)")
  case True
  then show ?thesis
    unfolding freshDocument_iff [symmetric]
    by (simp add: handleTextChange_def reconcileSegments_fresh unstyledSegment_def)
next
  case False
  then show ?thesis
    unfolding freshDocument_iff [symmetric] using assms
    by (simp add: handleTextChange_def reconcileSegments_grow)
qed

theorem growth_appends_to_last_segment_witness:
  "length ''hello there'' > textLength (segments (run [TextChange ''hello'', TextSelect 0 5,
      PickForeground (foregroundColors ! 1), ApplyFormatting]))
   \<and> segments (handleTextChange ''hello there'' (run [TextChange ''hello'', TextSelect 0 5,
      PickForeground (foregroundColors ! 1), ApplyFormatting]))
     = [\<lparr>text = ''hello there'', foreground = Some ''31'', background = None, styles = []\<rparr>]"
proof -
  have segs: "segments (run [TextChange ''hello'', TextSelect 0 5,
      PickForeground (foregroundColors ! 1), ApplyFormatting])
      = [\<lparr>text = ''hello'', foreground = Some ''31'', background = None, styles = []\<rparr>]"
    by code_simp
  have h: "length ''hello there'' > textLength (segments (run [TextChange ''hello'', TextSelect 0 5,
      PickForeground (foregroundColors ! 1), ApplyFormatting]))"
    by code_simp
  show ?thesis
    using growth_appends_to_last_segment [OF h, unfolded segs] h by (simp add: truthy_def)
qed

section \<open>Empty output\<close>

text \<open>
  Claim C9. In a state whose segment lengths add up to the length of \<open>inputText\<close>,
  \<open>generateColoredText\<close> returns the empty string exactly when \<open>inputText\<close> is empty
  or holds white space only. In every other case the output is the fence around the spans
  of the segments; a segment of white space is encoded like any other.
\<close>

theorem empty_output_iff_blank_input:
  assumes "lengthInvariant st"
  shows "(generateColoredText st = [] \<longleftrightarrow> (\<forall>c \<in> set (inputText st). is_whitespace c))
       \<and> (generateColoredText st \<noteq> [] \<longrightarrow>
            generateColoredText st
              = ''```ansi'' @ [NL] @ concat (map encodeSegment (segments st)) @ [NL] @ ''```'')"
proof (cases "segments st = []")
  case True
  with assms have "inputText st = []" by (rule lengthInvariant_no_segments)
  with True show ?thesis by (simp add: generateColoredText_eq trim_def)
next
  case False
  then show ?thesis by (simp add: generateColoredText_eq trim_eq_Nil_iff)
qed

theorem empty_output_iff_blank_input_witness:
  "lengthInvariant (run [TextChange ''a  b'', TextSelect 1 3, PickBackground (backgroundColors ! 5), ApplyFormatting])
   \<and> generateColoredText (run [TextChange ''a  b'', TextSelect 1 3, PickBackground (backgroundColors ! 5), ApplyFormatting]) \<noteq> []
   \<and> \<not> list_all is_whitespace (inputText (run [TextChange ''a  b'', TextSelect 1 3, PickBackground (backgroundColors ! 5), ApplyFormatting]))
   \<and> lengthInvariant (run [TextChange ''  ''])
   \<and> generateColoredText (run [TextChange ''  '']) = []
   \<and> list_all is_whitespace (inputText (run [TextChange ''  '']))"
proof -
  have h1: "lengthInvariant (run [TextChange ''a  b'', TextSelect 1 3, PickBackground (backgroundColors ! 5), ApplyFormatting])"
    by code_simp
  have h2: "lengthInvariant (run [TextChange ''  ''])"
    by code_simp
  have b1: "\<not> list_all is_whitespace (inputText (run [TextChange ''a  b'', TextSelect 1 3, PickBackground (backgroundColors ! 5), ApplyFormatting]))"
    by code_simp
  have b2: "list_all is_whitespace (inputText (run [TextChange ''  '']))"
    by code_simp
  show ?thesis
    using empty_output_iff_blank_input [OF h1] empty_output_iff_blank_input [OF h2] h1 h2 b1 b2
    by (simp add: list_all_iff)
qed

section \<open>The whole-text encoder against the segmented encoder\<close>

text \<open>
  Claim C10. For every input text, every list of style flags and every choice of a
  foreground and a background from the palettes (or none), \<open>generateColoredText\<close> of the
  second component returns what \<open>generateColoredText\<close> of the first returns on the one
  segment that holds the whole text with these attributes.
\<close>

theorem whole_text_encoder_refined:
  assumes "\<forall>c. selFg = Some c \<longrightarrow> c \<in> set foregroundColors"
    and "\<forall>c. selBg = Some c \<longrightarrow> c \<in> set backgroundColors"
  shows "generateColoredText2
           \<lparr>inputText2 = t, selectedForeground2 = selFg, selectedBackground2 = selBg,
            selectedStyles2 = sty\<rparr>
         = generateColoredText
             (st\<lparr>inputText := t,
                 segments := [\<lparr>text = t, foreground = map_option code selFg,
                               background = map_option code selBg, styles = sty\<rparr>]\<rparr>)"
  using assms by (intro generateColoredText2_refined) (auto dest: foregroundColors_code backgroundColors_code)

theorem whole_text_encoder_refined_witness:
  "foregroundColors ! 1 \<in> set foregroundColors \<and> backgroundColors ! 5 \<in> set backgroundColors
   \<and> generateColoredText2
        \<lparr>inputText2 = ''hello'', selectedForeground2 = Some (foregroundColors ! 1),
         selectedBackground2 = Some (backgroundColors ! 5), selectedStyles2 = [''1'', ''4'']\<rparr>
      = generateColoredText
          (initialState\<lparr>inputText := ''hello'',
             segments := [\<lparr>text = ''hello'', foreground = map_option code (Some (foregroundColors ! 1)),
                            background = map_option code (Some (backgroundColors ! 5)),
                            styles = [''1'', ''4'']\<rparr>]\<rparr>)
   \<and> generateColoredText2
        \<lparr>inputText2 = ''hello'', selectedForeground2 = Some (foregroundColors ! 1),
         selectedBackground2 = Some (backgroundColors ! 5), selectedStyles2 = [''1'', ''4'']\<rparr>
      = ''```ansi'' @ [NL, ESC] @ ''[1;4;31;45mhello'' @ [ESC] @ ''[0m'' @ [NL] @ ''```''"
proof -
  have f: "foregroundColors ! 1 \<in> set foregroundColors"
    by (simp add: foregroundColors_def)
  have b: "backgroundColors ! 5 \<in> set backgroundColors"
    by (simp add: backgroundColors_def)
  have v: "generateColoredText2
        \<lparr>inputText2 = ''hello'', selectedForeground2 = Some (foregroundColors ! 1),
         selectedBackground2 = Some (backgroundColors ! 5), selectedStyles2 = [''1'', ''4'']\<rparr>
      = ''```ansi'' @ [NL, ESC] @ ''[1;4;31;45mhello'' @ [ESC] @ ''[0m'' @ [NL] @ ''```''"
    by code_simp
  from f b have
    "generateColoredText2
        \<lparr>inputText2 = ''hello'', selectedForeground2 = Some (foregroundColors ! 1),
         selectedBackground2 = Some (backgroundColors ! 5), selectedStyles2 = [''1'', ''4'']\<rparr>
      = generateColoredText
          (initialState\<lparr>inputText := ''hello'',
             segments := [\<lparr>text = ''hello'', foreground = map_option code (Some (foregroundColors ! 1)),
                            background = map_option code (Some (backgroundColors ! 5)),
                            styles = [''1'', ''4'']\<rparr>]\<rparr>)"
    by (intro whole_text_encoder_refined) simp_all
  with f b v show ?thesis by (intro conjI)
qed

end
